theory Spec2Isabelle
  imports Complex_Main "HOL-Library.Option_ord"
begin

section \<open>The table \<open>nyc_datasets\<close> (database.py)\<close>

text \<open>
  A \<open>TIMESTAMP\<close> column value. Only its calendar fields are used by the handlers:
  \<open>extract('year', ...)\<close> reads \<open>ts_year\<close>, and \<open>isoformat()\<close> prints all of them.
\<close>

record timestamp =
  ts_year :: int
  ts_month :: nat
  ts_day :: nat
  ts_hour :: nat
  ts_minute :: nat
  ts_second :: nat
  ts_microsecond :: nat

text \<open>
  One row of class \<open>Dataset\<close>. The primary key \<open>id\<close> is never null; every other column
  is nullable, which is \<open>None\<close> here. \<open>BigInteger\<close> values are read as Python integers.
  The fields \<open>id\<close> and \<open>type\<close> carry a prefix, the other columns keep their names.
  A \<open>string\<close> stands for a Python \<open>str\<close>, one list element per character.
\<close>

record dataset =
  dataset_id :: string
  name :: "string option"
  description :: "string option"
  attribution :: "string option"
  dataset_type :: "string option"
  data_updated_at :: "timestamp option"
  page_views_last_week :: "int option"
  page_views_last_month :: "int option"
  page_views_total :: "int option"
  download_count :: "int option"
  publication_date :: "timestamp option"
  domain_category :: "string option"
  domain_tags :: "string option"
  dataset_information_agency :: "string option"
  link :: "string option"

text \<open>The table is the list of its rows, in the order a sequential scan yields them.\<close>

type_synonym store = "dataset list"

datatype error =
  DatabaseError   \<comment> \<open>the statement is rejected by the database\<close>
| TypeError       \<comment> \<open>Python's \<open>TypeError\<close>, here from \<open>len(None)\<close>\<close>

section \<open>The SQL that the handlers issue\<close>

text \<open>
  \<open>DATABASE_URL\<close> names a PostgreSQL server, so the operators below follow PostgreSQL.

  \<open>ORDER BY c DESC\<close>: PostgreSQL sorts NULL as larger than every value, so under
  \<open>DESC\<close> the rows with a NULL in \<open>c\<close> come first, then the others from the largest
  value down. \<open>desc_rank\<close> turns a column value into a rank that sorts ascending in that
  order (\<open>None\<close> is the least element of \<open>int option\<close>). Rows of equal rank keep the order
  of the input: \<open>sort_key\<close> is a stable insertion sort, which makes the tie order a
  function of the table.
\<close>

definition desc_rank :: "int option \<Rightarrow> int option" where
  "desc_rank v = map_option uminus v"

definition order_by_desc :: "('a \<Rightarrow> int option) \<Rightarrow> 'a list \<Rightarrow> 'a list" where
  "order_by_desc col rows = sort_key (\<lambda>r. desc_rank (col r)) rows"

text \<open>
  \<open>LIMIT n\<close> with the request's integer: PostgreSQL rejects a negative count
  (\<open>LIMIT must not be negative\<close>) and a count beyond \<open>bigint\<close>.
\<close>

definition sql_limit :: "int \<Rightarrow> 'a list \<Rightarrow> error + 'a list" where
  "sql_limit n rows =
     (if n < 0 \<or> 9223372036854775807 < n then Inl DatabaseError
      else Inr (take (nat n) rows))"

text \<open>
  Aggregates skip NULL inputs; \<open>sum\<close> and \<open>avg\<close> over no non-null input are NULL.
  \<open>sum\<close> of a \<open>bigint\<close> column is \<open>numeric\<close>, so it does not overflow.
\<close>

definition non_null :: "'a option list \<Rightarrow> 'a list" where
  "non_null vs = List.map_filter (\<lambda>v. v) vs"

definition sql_sum :: "int option list \<Rightarrow> int option" where
  "sql_sum vs = (if non_null vs = [] then None else Some (sum_list (non_null vs)))"

definition sql_avg :: "int option list \<Rightarrow> rat option" where
  "sql_avg vs =
     (if non_null vs = [] then None
      else Some (of_int (sum_list (non_null vs)) / of_nat (length (non_null vs))))"

text \<open>
  \<open>GROUP BY\<close>: one group per distinct key, holding the rows with that key.
\<close>

definition group_by :: "('a \<Rightarrow> 'k) \<Rightarrow> 'a list \<Rightarrow> ('k \<times> 'a list) list" where
  "group_by key rows = map (\<lambda>k. (k, filter (\<lambda>r. key r = k) rows)) (remdups (map key rows))"

text \<open>
  A statement run through the session. Every statement of main.py is a \<open>SELECT\<close>
  (\<open>db.query(...)\<close> ended by \<open>.all()\<close>, \<open>.scalar()\<close> or \<open>.count()\<close>): it is evaluated on
  the table and hands the table on as it found it.
\<close>

definition run_query :: "(store \<Rightarrow> 'a) \<Rightarrow> store \<Rightarrow> 'a \<times> store" where
  "run_query q db = (q db, db)"

section \<open>Python helpers\<close>

text \<open>\<open>x or 0\<close> for a nullable number: \<open>None\<close> and \<open>0\<close> both give \<open>0\<close>.\<close>

definition or_0 :: "'a::zero option \<Rightarrow> 'a" where
  "or_0 v = (case v of None \<Rightarrow> 0 | Some x \<Rightarrow> (if x = 0 then 0 else x))"

text \<open>
  \<open>round(float(x), 2)\<close>, on exact rationals: the nearest multiple of 1/100, a tie going
  to the even one. The binary representation error of \<open>float\<close> is left out.
\<close>

definition round_half_even :: "rat \<Rightarrow> int" where
  "round_half_even x =
     (let f = \<lfloor>x\<rfloor>; d = x - of_int f
      in if d < 1 / 2 then f else if 1 / 2 < d then f + 1
         else if even f then f else f + 1)"

definition round2 :: "rat \<Rightarrow> rat" where
  "round2 x = of_int (round_half_even (x * 100)) / 100"

text \<open>\<open>s[:n] + "..." if len(s) > n else s\<close>\<close>

definition shorten :: "nat \<Rightarrow> string \<Rightarrow> string" where
  "shorten n s = (if length s > n then take n s @ ''...'' else s)"

text \<open>
  \<open>datetime.isoformat()\<close> of a naive timestamp: \<open>YYYY-MM-DDTHH:MM:SS\<close>, followed by
  \<open>.ffffff\<close> when the microseconds are not zero. \<open>digits w n\<close> prints \<open>n\<close> in \<open>w\<close>
  decimal digits.
\<close>

fun digits :: "nat \<Rightarrow> nat \<Rightarrow> string" where
  "digits 0 n = []"
| "digits (Suc w) n = digits w (n div 10) @ [char_of (48 + n mod 10)]"

definition isoformat :: "timestamp \<Rightarrow> string" where
  "isoformat t =
     digits 4 (nat (ts_year t)) @ ''-'' @ digits 2 (ts_month t) @ ''-'' @ digits 2 (ts_day t)
     @ ''T'' @ digits 2 (ts_hour t) @ '':'' @ digits 2 (ts_minute t) @ '':''
     @ digits 2 (ts_second t)
     @ (if ts_microsecond t = 0 then [] else ''.'' @ digits 6 (ts_microsecond t))"

text \<open>
  A list comprehension whose element expression may raise: the rows are mapped in order and
  the first exception ends the request.
\<close>

fun comprehension :: "('a \<Rightarrow> error + 'b) \<Rightarrow> 'a list \<Rightarrow> error + 'b list" where
  "comprehension f [] = Inr []"
| "comprehension f (x # xs) =
     (case f x of
        Inl e \<Rightarrow> Inl e
      | Inr y \<Rightarrow> (case comprehension f xs of Inl e \<Rightarrow> Inl e | Inr ys \<Rightarrow> Inr (y # ys)))"

section \<open>Response shapes (main.py)\<close>

record overview =
  total_datasets :: int
  total_page_views :: int
  total_downloads :: int
  avg_weekly_views :: rat

text \<open>The dictionary of top-viewed and top-downloaded; the fields pass through, null included.\<close>

record summary =
  s_id :: string
  s_name :: "string option"
  s_page_views_total :: "int option"
  s_download_count :: "int option"
  s_agency :: "string option"
  s_category :: "string option"

text \<open>
  A row of the two grouped queries, and the dictionary made of it. \<open>group_key\<close> is the
  entry \<open>agency\<close> or \<open>category\<close> of the dictionary.
\<close>

record group_row =
  g_key :: "string option"
  g_dataset_count :: int
  g_total_views :: "int option"
  g_total_downloads :: "int option"

record group_stats =
  group_key :: "string option"
  dataset_count :: int
  total_views :: int
  total_downloads :: int

record year_count =
  year :: int
  count :: int

record engagement =
  e_name :: string
  weekly_views :: int
  monthly_views :: int
  e_total_views :: int
  downloads :: int
  e_category :: "string option"

record search_result =
  r_id :: string
  r_name :: "string option"
  r_description :: "string option"
  r_agency :: "string option"
  r_category :: "string option"
  r_page_views_total :: "int option"
  r_download_count :: "int option"
  r_publication_date :: "string option"
  r_link :: "string option"

section \<open>The handlers (main.py)\<close>

text \<open>
  Each handler takes the table the session sees and returns its response with the table
  after the request. A response that can fail is \<open>error + _\<close>.
\<close>

definition read_root :: "string \<times> string" where
  "read_root = (''message'', ''NYC Datasets Dashboard API'')"

definition get_overview_stats :: "store \<Rightarrow> overview \<times> store" where
  "get_overview_stats db =
     (let (count_all, db1) = run_query (\<lambda>t. int (length t)) db;
          (sum_views, db2) = run_query (\<lambda>t. sql_sum (map page_views_total t)) db1;
          (sum_downloads, db3) = run_query (\<lambda>t. sql_sum (map download_count t)) db2;
          (avg_week, db4) = run_query (\<lambda>t. sql_avg (map page_views_last_week t)) db3
      in (\<lparr>total_datasets = count_all,
           total_page_views = or_0 sum_views,
           total_downloads = or_0 sum_downloads,
           avg_weekly_views = round2 (or_0 avg_week)\<rparr>, db4))"

definition summary_of :: "dataset \<Rightarrow> summary" where
  "summary_of d =
     \<lparr>s_id = dataset_id d, s_name = name d, s_page_views_total = page_views_total d,
      s_download_count = download_count d, s_agency = dataset_information_agency d,
      s_category = domain_category d\<rparr>"

definition get_top_viewed_datasets :: "int \<Rightarrow> store \<Rightarrow> (error + summary list) \<times> store" where
  "get_top_viewed_datasets limit db =
     (let (datasets, db') =
            run_query (\<lambda>t. sql_limit limit (order_by_desc page_views_total t)) db
      in (case datasets of Inl e \<Rightarrow> Inl e | Inr ds \<Rightarrow> Inr (map summary_of ds), db'))"

definition get_top_downloaded_datasets :: "int \<Rightarrow> store \<Rightarrow> (error + summary list) \<times> store" where
  "get_top_downloaded_datasets limit db =
     (let (datasets, db') =
            run_query (\<lambda>t. sql_limit limit (order_by_desc download_count t)) db
      in (case datasets of Inl e \<Rightarrow> Inl e | Inr ds \<Rightarrow> Inr (map summary_of ds), db'))"

text \<open>
  The grouped query of by-agency and by-category: rows with a null key are filtered out,
  the rest grouped by the key; \<open>count(Dataset.id)\<close> counts the rows of the group, the
  primary key being non-null.
\<close>

definition grouped :: "(dataset \<Rightarrow> string option) \<Rightarrow> store \<Rightarrow> group_row list" where
  "grouped col t =
     map (\<lambda>(k, rows).
            \<lparr>g_key = k, g_dataset_count = int (length rows),
             g_total_views = sql_sum (map page_views_total rows),
             g_total_downloads = sql_sum (map download_count rows)\<rparr>)
         (group_by col (filter (\<lambda>d. col d \<noteq> None) t))"

definition stats_of :: "group_row \<Rightarrow> group_stats" where
  "stats_of r =
     \<lparr>group_key = g_key r, dataset_count = g_dataset_count r,
      total_views = or_0 (g_total_views r), total_downloads = or_0 (g_total_downloads r)\<rparr>"

definition get_analytics_by_agency :: "store \<Rightarrow> group_stats list \<times> store" where
  "get_analytics_by_agency db =
     (let (results, db') =
            run_query (\<lambda>t. take 15 (order_by_desc g_total_views
                                       (grouped dataset_information_agency t))) db
      in (map stats_of results, db'))"

definition get_analytics_by_category :: "store \<Rightarrow> group_stats list \<times> store" where
  "get_analytics_by_category db =
     (let (results, db') =
            run_query (\<lambda>t. order_by_desc g_total_views (grouped domain_category t)) db
      in (map stats_of results, db'))"

text \<open>
  publication-timeline. The query keeps the rows with a publication date, groups them by
  its year, counts each group and sorts by year ascending (no key is null there). The
  comprehension keeps a row when \<open>r.year and r.year >= 2000\<close>.
\<close>

definition timeline_query :: "store \<Rightarrow> (int \<times> int) list" where
  "timeline_query t =
     sort_key fst
       (map (\<lambda>(y, rows). (y, int (length rows)))
            (group_by ts_year (non_null (map publication_date t))))"

definition get_publication_timeline :: "store \<Rightarrow> year_count list \<times> store" where
  "get_publication_timeline db =
     (let (results, db') = run_query timeline_query db
      in (map (\<lambda>(y, c). \<lparr>year = y, count = c\<rparr>)
              (filter (\<lambda>(y, c). y \<noteq> 0 \<and> y \<ge> 2000) results), db'))"

text \<open>
  engagement-metrics. \<open>page_views_total > 0\<close> is not true of a null, so the filter drops
  those rows. The query selects six columns of each row; the row itself stands for them.
  \<open>len(r.name)\<close> raises \<open>TypeError\<close> when the name is null.
\<close>

definition engagement_query :: "store \<Rightarrow> dataset list" where
  "engagement_query t =
     take 20 (order_by_desc page_views_total
                (filter (\<lambda>d. case page_views_total d of None \<Rightarrow> False | Some v \<Rightarrow> v > 0) t))"

definition engagement_of :: "dataset \<Rightarrow> error + engagement" where
  "engagement_of r =
     (case name r of
        None \<Rightarrow> Inl TypeError
      | Some n \<Rightarrow>
          Inr \<lparr>e_name = shorten 50 n,
               weekly_views = or_0 (page_views_last_week r),
               monthly_views = or_0 (page_views_last_month r),
               e_total_views = or_0 (page_views_total r),
               downloads = or_0 (download_count r),
               e_category = domain_category r\<rparr>)"

definition get_engagement_metrics :: "store \<Rightarrow> (error + engagement list) \<times> store" where
  "get_engagement_metrics db =
     (let (results, db') = run_query engagement_query db
      in (comprehension engagement_of results, db'))"

text \<open>
  search. \<open>ilike\<close> is the database's case-insensitive pattern match (text, then pattern),
  taken as a parameter; on a null name it is not true. An empty parameter adds no filter.
\<close>

definition search_query ::
  "(string \<Rightarrow> string \<Rightarrow> bool) \<Rightarrow> string \<Rightarrow> string \<Rightarrow> string \<Rightarrow> int \<Rightarrow> store
     \<Rightarrow> error + dataset list" where
  "search_query ilike q category agency limit t =
     (let t1 = (if q \<noteq> []
                then filter (\<lambda>d. case name d of None \<Rightarrow> False
                                 | Some n \<Rightarrow> ilike n (''%'' @ q @ ''%'')) t
                else t);
          t2 = (if category \<noteq> [] then filter (\<lambda>d. domain_category d = Some category) t1
                else t1);
          t3 = (if agency \<noteq> []
                then filter (\<lambda>d. dataset_information_agency d = Some agency) t2
                else t2)
      in sql_limit limit (order_by_desc page_views_total t3))"

definition search_result_of :: "dataset \<Rightarrow> search_result" where
  "search_result_of d =
     \<lparr>r_id = dataset_id d,
      r_name = name d,
      r_description =
        (case description d of
           None \<Rightarrow> None
         | Some s \<Rightarrow> if s \<noteq> [] \<and> length s > 200 then Some (take 200 s @ ''...'') else Some s),
      r_agency = dataset_information_agency d,
      r_category = domain_category d,
      r_page_views_total = page_views_total d,
      r_download_count = download_count d,
      r_publication_date = map_option isoformat (publication_date d),
      r_link = link d\<rparr>"

definition search_datasets ::
  "(string \<Rightarrow> string \<Rightarrow> bool) \<Rightarrow> string \<Rightarrow> string \<Rightarrow> string \<Rightarrow> int \<Rightarrow> store
     \<Rightarrow> (error + search_result list) \<times> store" where
  "search_datasets ilike q category agency limit db =
     (let (datasets, db') = run_query (search_query ilike q category agency limit) db
      in (case datasets of Inl e \<Rightarrow> Inl e | Inr ds \<Rightarrow> Inr (map search_result_of ds), db'))"

text \<open>
  The two filter lists. \<open>DISTINCT\<close> over the non-null values of the column, then the
  comprehension's \<open>if c[0]\<close>, which an empty string does not pass.
\<close>

definition get_categories :: "store \<Rightarrow> string list \<times> store" where
  "get_categories db =
     (let (categories, db') = run_query (\<lambda>t. remdups (non_null (map domain_category t))) db
      in (filter (\<lambda>c. c \<noteq> []) categories, db'))"

definition get_agencies :: "store \<Rightarrow> string list \<times> store" where
  "get_agencies db =
     (let (agencies, db') =
            run_query (\<lambda>t. remdups (non_null (map dataset_information_agency t))) db
      in (filter (\<lambda>a. a \<noteq> []) agencies, db'))"

section \<open>The service as a whole\<close>

datatype request =
  Root
| OverviewStats
| TopViewed int
| TopDownloaded int
| ByAgency
| ByCategory
| PublicationTimeline
| EngagementMetrics
| Search string string string int
| Categories
| Agencies

datatype response =
  Message "string \<times> string"
| Overview overview
| Summaries "error + summary list"
| Groups "group_stats list"
| Timeline "year_count list"
| Engagements "error + engagement list"
| SearchResults "error + search_result list"
| Names "string list"

text \<open>
  One request against the table: the route's handler runs in a session of its own
  (\<open>get_db\<close> opens it and closes it afterwards, on every path, without a commit).
  \<open>read_root\<close> takes no session.
\<close>

definition respond :: "('a \<Rightarrow> response) \<Rightarrow> 'a \<times> store \<Rightarrow> response \<times> store" where
  "respond wrap out = (wrap (fst out), snd out)"

fun serve :: "(string \<Rightarrow> string \<Rightarrow> bool) \<Rightarrow> request \<Rightarrow> store \<Rightarrow> response \<times> store" where
  "serve ilike Root db = (Message read_root, db)"
| "serve ilike OverviewStats db = respond Overview (get_overview_stats db)"
| "serve ilike (TopViewed limit) db = respond Summaries (get_top_viewed_datasets limit db)"
| "serve ilike (TopDownloaded limit) db =
     respond Summaries (get_top_downloaded_datasets limit db)"
| "serve ilike ByAgency db = respond Groups (get_analytics_by_agency db)"
| "serve ilike ByCategory db = respond Groups (get_analytics_by_category db)"
| "serve ilike PublicationTimeline db = respond Timeline (get_publication_timeline db)"
| "serve ilike EngagementMetrics db = respond Engagements (get_engagement_metrics db)"
| "serve ilike (Search q category agency limit) db =
     respond SearchResults (search_datasets ilike q category agency limit db)"
| "serve ilike Categories db = respond Names (get_categories db)"
| "serve ilike Agencies db = respond Names (get_agencies db)"

text \<open>
  The fields that a search result and a top-viewed entry have in common, as a top-viewed
  entry.
\<close>

definition common_fields :: "search_result \<Rightarrow> summary" where
  "common_fields r =
     \<lparr>s_id = r_id r, s_name = r_name r, s_page_views_total = r_page_views_total r,
      s_download_count = r_download_count r, s_agency = r_agency r,
      s_category = r_category r\<rparr>"

section \<open>Example tables\<close>

text \<open>A row with the given key and every other column null.\<close>

definition blank :: "string \<Rightarrow> dataset" where
  "blank i =
     \<lparr>dataset_id = i, name = None, description = None, attribution = None,
      dataset_type = None, data_updated_at = None, page_views_last_week = None,
      page_views_last_month = None, page_views_total = None, download_count = None,
      publication_date = None, domain_category = None, domain_tags = None,
      dataset_information_agency = None, link = None\<rparr>"

text \<open>Two rows, the second without a view count.\<close>

definition unviewed_table :: store where
  "unviewed_table = [(blank ''a'')\<lparr>page_views_total := Some 5\<rparr>, blank ''b'']"

text \<open>Two agencies; no row of the first has a view count.\<close>

definition unviewed_agency_table :: store where
  "unviewed_agency_table =
     [(blank ''a'')\<lparr>dataset_information_agency := Some ''DOE''\<rparr>,
      (blank ''b'')\<lparr>dataset_information_agency := Some ''DOT'', page_views_total := Some 100\<rparr>]"

text \<open>A category and an agency that are the empty string, next to named ones.\<close>

definition empty_label_table :: store where
  "empty_label_table =
     [(blank ''a'')\<lparr>domain_category := Some [], dataset_information_agency := Some []\<rparr>,
      (blank ''b'')\<lparr>domain_category := Some ''Health'',
                    dataset_information_agency := Some ''DOT''\<rparr>]"

text \<open>Two dictionaries that the grouped handlers return on the tables above.\<close>

definition doe_stats :: group_stats where
  "doe_stats =
     \<lparr>group_key = Some ''DOE'', dataset_count = 1, total_views = 0, total_downloads = 0\<rparr>"

definition health_stats :: group_stats where
  "health_stats =
     \<lparr>group_key = Some ''Health'', dataset_count = 1, total_views = 0, total_downloads = 0\<rparr>"

text \<open>
  Names of 51 and of 50 characters on rows with views, and a row without name or views;
  \<open>named_out\<close> is what engagement-metrics returns on that table.
\<close>

definition name51 :: string where
  "name51 = ''Annual Survey of Sidewalk Cafe Licenses and Permits''"

definition name50 :: string where
  "name50 = ''Directory of Public Libraries in the Five Boroughs''"

definition named_table :: store where
  "named_table =
     [(blank ''a'')\<lparr>name := Some name50, page_views_total := Some 2\<rparr>,
      (blank ''b'')\<lparr>name := Some name51, page_views_total := Some 3\<rparr>,
      blank ''c'']"

definition named_out :: "engagement list" where
  "named_out =
     [\<lparr>e_name = take 50 name51 @ ''...'', weekly_views = 0, monthly_views = 0,
       e_total_views = 3, downloads = 0, e_category = None\<rparr>,
      \<lparr>e_name = name50, weekly_views = 0, monthly_views = 0,
       e_total_views = 2, downloads = 0, e_category = None\<rparr>]"

text \<open>One viewed row without a name.\<close>

definition unnamed_table :: store where
  "unnamed_table = [(blank ''a'')\<lparr>page_views_total := Some 7\<rparr>]"

text \<open>
  Rows published in 2005, 1999, 2001 and 2005 again, and a row with no publication date.
\<close>

definition new_year :: "int \<Rightarrow> timestamp" where
  "new_year y =
     \<lparr>ts_year = y, ts_month = 1, ts_day = 1, ts_hour = 0, ts_minute = 0, ts_second = 0,
      ts_microsecond = 0\<rparr>"

definition dated_table :: store where
  "dated_table =
     [(blank ''a'')\<lparr>publication_date := Some (new_year 2005)\<rparr>,
      (blank ''b'')\<lparr>publication_date := Some (new_year 1999)\<rparr>,
      blank ''c'',
      (blank ''d'')\<lparr>publication_date := Some (new_year 2001)\<rparr>,
      (blank ''e'')\<lparr>publication_date := Some (new_year 2005)\<rparr>]"

section \<open>Facts about the operators\<close>

lemma non_null_Nil: "non_null [] = []"
  by (simp add: non_null_def)

lemma non_null_Cons:
  "non_null (v # vs) = (case v of None \<Rightarrow> non_null vs | Some x \<Rightarrow> x # non_null vs)"
  by (cases v) (simp_all add: non_null_def)

lemma set_non_null: "set (non_null vs) = {x. Some x \<in> set vs}"
  by (induction vs) (auto simp: non_null_Nil non_null_Cons split: option.splits)

lemma length_non_null_map:
  "length (non_null (map f xs)) = length (filter (\<lambda>x. f x \<noteq> None) xs)"
  by (induction xs) (auto simp: non_null_Nil non_null_Cons split: option.splits)

lemma sum_list_insort_key:
  fixes f :: "'a \<Rightarrow> int"
  shows "sum_list (map f (insort_key k x xs)) = f x + sum_list (map f xs)"
  by (induction xs) auto

lemma sum_list_sort_key:
  fixes f :: "'a \<Rightarrow> int"
  shows "sum_list (map f (sort_key k xs)) = sum_list (map f xs)"
  by (induction xs) (auto simp: sum_list_insort_key)

lemma sum_list_filter_le:
  fixes f :: "'a \<Rightarrow> int"
  assumes "\<And>x. x \<in> set xs \<Longrightarrow> 0 \<le> f x"
  shows "sum_list (map f (filter P xs)) \<le> sum_list (map f xs)"
  using assms by (induction xs) (auto simp: add_increasing)

lemma sum_list_take_le:
  fixes f :: "'a \<Rightarrow> int"
  assumes "\<And>x. x \<in> set xs \<Longrightarrow> 0 \<le> f x"
  shows "sum_list (map f (take n xs)) \<le> sum_list (map f xs)"
  using assms
proof (induction xs arbitrary: n)
  case Nil
  then show ?case by simp
next
  case (Cons x xs)
  show ?case
  proof (cases n)
    case 0
    have "0 \<le> sum_list (map f (x # xs))"
      by (rule sum_list_nonneg) (use Cons.prems in auto)
    with 0 show ?thesis by simp
  next
    case (Suc m)
    have "sum_list (map f (take m xs)) \<le> sum_list (map f xs)"
      by (rule Cons.IH) (simp add: Cons.prems)
    with Suc show ?thesis by simp
  qed
qed

text \<open>The groups of distinct keys partition the rows that carry one of the keys.\<close>

lemma group_sizes_distinct:
  "distinct ks \<Longrightarrow>
   (\<Sum>k\<leftarrow>ks. int (length (filter (\<lambda>r. key r = k) rows)))
     = int (length (filter (\<lambda>r. key r \<in> set ks) rows))"
proof (induction ks)
  case Nil
  then show ?case by simp
next
  case (Cons k ks)
  have split: "length (filter (\<lambda>r. key r = k \<or> key r \<in> set ks) rows)
      = length (filter (\<lambda>r. key r = k) rows) + length (filter (\<lambda>r. key r \<in> set ks) rows)"
    using Cons.prems by (induction rows) auto
  from Cons show ?case by (simp add: split)
qed

lemma group_sizes_total:
  "(\<Sum>k\<leftarrow>remdups (map key rows). int (length (filter (\<lambda>r. key r = k) rows)))
     = int (length rows)"
  by (simp add: group_sizes_distinct)

lemma map_fst_group_by: "map fst (group_by key rows) = remdups (map key rows)"
  by (simp add: group_by_def comp_def)

lemma group_by_member:
  "(k, g) \<in> set (group_by key rows) \<Longrightarrow>
     k \<in> key ` set rows \<and> g = filter (\<lambda>r. key r = k) rows \<and> g \<noteq> []"
  by (auto simp: group_by_def filter_empty_conv)

subsection \<open>What each handler returns\<close>

lemma top_viewed_result:
  "fst (get_top_viewed_datasets limit db) =
     (case sql_limit limit (order_by_desc page_views_total db) of
        Inl e \<Rightarrow> Inl e | Inr ds \<Rightarrow> Inr (map summary_of ds))"
  by (simp add: get_top_viewed_datasets_def run_query_def)

lemma search_result:
  "fst (search_datasets ilike q category agency limit db) =
     (case search_query ilike q category agency limit db of
        Inl e \<Rightarrow> Inl e | Inr ds \<Rightarrow> Inr (map search_result_of ds))"
  by (simp add: search_datasets_def run_query_def)

lemma by_agency_result:
  "fst (get_analytics_by_agency db) =
     map stats_of (take 15 (order_by_desc g_total_views (grouped dataset_information_agency db)))"
  by (simp add: get_analytics_by_agency_def run_query_def)

lemma by_category_result:
  "fst (get_analytics_by_category db) =
     map stats_of (order_by_desc g_total_views (grouped domain_category db))"
  by (simp add: get_analytics_by_category_def run_query_def)

lemma timeline_result:
  "fst (get_publication_timeline db) =
     map (\<lambda>(y, c). \<lparr>year = y, count = c\<rparr>)
         (filter (\<lambda>(y, c). y \<noteq> 0 \<and> y \<ge> 2000) (timeline_query db))"
  by (simp add: get_publication_timeline_def run_query_def)

lemma engagement_result:
  "fst (get_engagement_metrics db) = comprehension engagement_of (engagement_query db)"
  by (simp add: get_engagement_metrics_def run_query_def)

lemma categories_result:
  "fst (get_categories db) = filter (\<lambda>c. c \<noteq> []) (remdups (non_null (map domain_category db)))"
  by (simp add: get_categories_def run_query_def)

lemma agencies_result:
  "fst (get_agencies db) =
     filter (\<lambda>a. a \<noteq> []) (remdups (non_null (map dataset_information_agency db)))"
  by (simp add: get_agencies_def run_query_def)

lemma common_fields_search_result_of: "common_fields (search_result_of d) = summary_of d"
  by (simp add: common_fields_def search_result_of_def summary_of_def)

lemma search_query_no_filter:
  "search_query ilike [] [] [] limit db = sql_limit limit (order_by_desc page_views_total db)"
  by (simp add: search_query_def)

subsection \<open>Ordering\<close>

lemma set_order_by_desc: "set (order_by_desc col rows) = set rows"
  by (simp add: order_by_desc_def)

lemma length_order_by_desc: "length (order_by_desc col rows) = length rows"
  by (simp add: order_by_desc_def)

lemma sorted_order_by_desc:
  "sorted (map (\<lambda>r. desc_rank (col r)) (order_by_desc col rows))"
  unfolding order_by_desc_def by (rule sorted_sort_key)

lemma desc_rank_le:
  "desc_rank a \<le> desc_rank b \<longleftrightarrow>
     (case a of None \<Rightarrow> True | Some x \<Rightarrow> (case b of None \<Rightarrow> False | Some y \<Rightarrow> y \<le> x))"
  by (simp add: desc_rank_def split: option.splits)

lemma sql_limit_Inr:
  "sql_limit n rows = Inr out \<Longrightarrow> out = take (nat n) rows \<and> 0 \<le> n"
  by (auto simp: sql_limit_def split: if_splits)

lemma top_viewed_at_most_limit:
  assumes "fst (get_top_viewed_datasets limit db) = Inr out"
  shows "int (length out) \<le> limit"
proof -
  from assms obtain ds where ds: "sql_limit limit (order_by_desc page_views_total db) = Inr ds"
    and out: "out = map summary_of ds"
    by (auto simp: top_viewed_result split: sum.splits)
  from sql_limit_Inr[OF ds] out show ?thesis by auto
qed

lemma top_viewed_nulls_first_then_descending:
  assumes "fst (get_top_viewed_datasets limit db) = Inr out"
  shows "sorted (map (\<lambda>s. desc_rank (s_page_views_total s)) out)"
proof -
  from assms obtain ds where ds: "sql_limit limit (order_by_desc page_views_total db) = Inr ds"
    and out: "out = map summary_of ds"
    by (auto simp: top_viewed_result split: sum.splits)
  have "sorted (take (nat limit) (map (\<lambda>r. desc_rank (page_views_total r))
                  (order_by_desc page_views_total db)))"
    by (rule sorted_wrt_take) (rule sorted_order_by_desc)
  with sql_limit_Inr[OF ds] out show ?thesis
    by (simp add: comp_def summary_of_def take_map)
qed

lemma top_viewed_returns:
  assumes "0 \<le> limit" and "limit \<le> 9223372036854775807"
  shows "\<exists>out. fst (get_top_viewed_datasets limit db) = Inr out"
  using assms by (simp add: top_viewed_result sql_limit_def)

lemma top_viewed_viewed_rows_descending:
  assumes "fst (get_top_viewed_datasets limit db) = Inr out"
  shows "sorted_wrt (\<lambda>a b. \<forall>x y. s_page_views_total a = Some x \<longrightarrow> s_page_views_total b = Some y
                          \<longrightarrow> y \<le> x) out"
proof -
  from top_viewed_nulls_first_then_descending[OF assms]
  have "sorted_wrt (\<lambda>a b. desc_rank (s_page_views_total a) \<le> desc_rank (s_page_views_total b)) out"
    by (simp add: sorted_map)
  then show ?thesis
    by (rule sorted_wrt_mono_rel[rotated]) (auto simp: desc_rank_le split: option.splits)
qed

subsection \<open>Grouped rows\<close>

lemma or_0_sql_sum: "or_0 (sql_sum vs) = sum_list (non_null vs)"
  by (simp add: or_0_def sql_sum_def)

lemma filter_key_of_non_null:
  "filter (\<lambda>d. col d = Some k) (filter (\<lambda>d. col d \<noteq> None) t) = filter (\<lambda>d. col d = Some k) t"
  by (induction t) auto

lemma grouped_row:
  assumes "r \<in> set (grouped col t)"
  shows "\<exists>k. g_key r = Some k
            \<and> g_dataset_count r = int (length (filter (\<lambda>d. col d = Some k) t))
            \<and> filter (\<lambda>d. col d = Some k) t \<noteq> []
            \<and> g_total_views r = sql_sum (map page_views_total (filter (\<lambda>d. col d = Some k) t))
            \<and> g_total_downloads r
                = sql_sum (map download_count (filter (\<lambda>d. col d = Some k) t))"
proof -
  let ?ft = "filter (\<lambda>d. col d \<noteq> None) t"
  from assms obtain key g where kg: "(key, g) \<in> set (group_by col ?ft)"
    and r: "r = \<lparr>g_key = key, g_dataset_count = int (length g),
                  g_total_views = sql_sum (map page_views_total g),
                  g_total_downloads = sql_sum (map download_count g)\<rparr>"
    by (auto simp: grouped_def)
  from group_by_member[OF kg] have key: "key \<in> col ` set ?ft"
    and g: "g = filter (\<lambda>d. col d = key) ?ft" and ne: "g \<noteq> []"
    by blast+
  from key obtain k where k: "key = Some k" by auto
  from g k have g': "g = filter (\<lambda>d. col d = Some k) t"
    by (simp only: filter_key_of_non_null)
  from r k g' ne show ?thesis by simp
qed

lemma stats_row:
  assumes "r \<in> set (grouped col t)"
  shows "\<exists>k. group_key (stats_of r) = Some k
            \<and> 1 \<le> dataset_count (stats_of r)
            \<and> dataset_count (stats_of r) = int (length (filter (\<lambda>d. col d = Some k) t))
            \<and> total_views (stats_of r)
                = sum_list (non_null (map page_views_total (filter (\<lambda>d. col d = Some k) t)))
            \<and> total_downloads (stats_of r)
                = sum_list (non_null (map download_count (filter (\<lambda>d. col d = Some k) t)))"
proof -
  from grouped_row[OF assms] obtain k where k: "g_key r = Some k"
    "g_dataset_count r = int (length (filter (\<lambda>d. col d = Some k) t))"
    "filter (\<lambda>d. col d = Some k) t \<noteq> []"
    "g_total_views r = sql_sum (map page_views_total (filter (\<lambda>d. col d = Some k) t))"
    "g_total_downloads r = sql_sum (map download_count (filter (\<lambda>d. col d = Some k) t))"
    by blast
  from k(3) have "1 \<le> length (filter (\<lambda>d. col d = Some k) t)"
    by (cases "filter (\<lambda>d. col d = Some k) t") simp_all
  with k show ?thesis
    by (simp add: stats_of_def or_0_sql_sum)
qed

subsection \<open>by-agency: what holds of the list\<close>

lemma by_agency_at_most_15: "length (fst (get_analytics_by_agency db)) \<le> 15"
  by (simp add: by_agency_result)

lemma by_agency_no_null_key: "s \<in> set (fst (get_analytics_by_agency db)) \<Longrightarrow> group_key s \<noteq> None"
proof -
  assume "s \<in> set (fst (get_analytics_by_agency db))"
  then obtain r where "r \<in> set (grouped dataset_information_agency db)" and "s = stats_of r"
    by (auto simp: by_agency_result set_order_by_desc dest: in_set_takeD)
  with stats_row[of r dataset_information_agency db] show ?thesis by auto
qed

lemma grouped_counts:
  "sum_list (map g_dataset_count (grouped col t))
     = int (length (filter (\<lambda>d. col d \<noteq> None) t))"
proof -
  let ?ft = "filter (\<lambda>d. col d \<noteq> None) t"
  have "map g_dataset_count (grouped col t)
          = map (\<lambda>k. int (length (filter (\<lambda>r. col r = k) ?ft))) (remdups (map col ?ft))"
    by (simp add: grouped_def group_by_def comp_def)
  then show ?thesis
    by (simp only: group_sizes_total)
qed

lemma by_agency_counts_le_total:
  "sum_list (map dataset_count (fst (get_analytics_by_agency db))) \<le> int (length db)"
proof -
  let ?rows = "order_by_desc g_total_views (grouped dataset_information_agency db)"
  have "map dataset_count (fst (get_analytics_by_agency db))
          = map g_dataset_count (take 15 ?rows)"
    by (simp add: by_agency_result comp_def stats_of_def)
  moreover have "sum_list (map g_dataset_count (take 15 ?rows))
                   \<le> sum_list (map g_dataset_count ?rows)"
    by (rule sum_list_take_le) (auto simp: set_order_by_desc grouped_def)
  moreover have "sum_list (map g_dataset_count ?rows)
                   = sum_list (map g_dataset_count (grouped dataset_information_agency db))"
    by (simp add: order_by_desc_def sum_list_sort_key)
  moreover have "int (length (filter (\<lambda>d. dataset_information_agency d \<noteq> None) db))
                   \<le> int (length db)"
    by simp
  ultimately show ?thesis
    by (simp only: grouped_counts)
qed

lemma by_agency_query_order:
  "sorted (map (\<lambda>r. desc_rank (g_total_views r))
             (take 15 (order_by_desc g_total_views (grouped dataset_information_agency db))))"
  unfolding take_map [symmetric]
  by (rule sorted_wrt_take) (simp add: order_by_desc_def sorted_sort_key)

subsection \<open>Comprehensions that may raise\<close>

lemma comprehension_Inr:
  "comprehension f xs = Inr ys \<Longrightarrow>
     length ys = length xs \<and> (\<forall>i<length xs. f (xs ! i) = Inr (ys ! i))"
proof (induction xs arbitrary: ys)
  case Nil
  then show ?case by simp
next
  case (Cons x xs)
  from Cons.prems obtain y ys' where y: "f x = Inr y" and ys': "comprehension f xs = Inr ys'"
    and ys: "ys = y # ys'"
    by (auto split: sum.splits)
  from Cons.IH[OF ys'] y ys show ?case
    by (auto simp: nth_Cons split: nat.splits)
qed

lemma comprehension_succeeds_iff:
  "(\<exists>ys. comprehension f xs = Inr ys) \<longleftrightarrow> (\<forall>x\<in>set xs. \<exists>y. f x = Inr y)"
  by (induction xs) (auto split: sum.splits)

lemma comprehension_error:
  "comprehension f xs = Inl e \<Longrightarrow> \<exists>x\<in>set xs. f x = Inl e"
  by (induction xs) (auto split: sum.splits)

subsection \<open>engagement-metrics: the rows selected\<close>

lemma engagement_of_Inr_iff: "(\<exists>m. engagement_of r = Inr m) \<longleftrightarrow> name r \<noteq> None"
  by (simp add: engagement_of_def split: option.splits)

lemma engagement_of_Inl: "engagement_of r = Inl e \<Longrightarrow> e = TypeError"
  by (simp add: engagement_of_def split: option.splits)

lemma engagement_of_name:
  "engagement_of r = Inr m \<Longrightarrow> \<exists>n. name r = Some n \<and> e_name m = shorten 50 n"
  by (auto simp: engagement_of_def split: option.splits)

lemma engagement_query_selects:
  "length (engagement_query db) \<le> 20
   \<and> (\<forall>r\<in>set (engagement_query db). r \<in> set db \<and> (\<exists>v. page_views_total r = Some v \<and> 0 < v))
   \<and> sorted (map (\<lambda>r. desc_rank (page_views_total r)) (engagement_query db))"
proof -
  have "sorted (map (\<lambda>r. desc_rank (page_views_total r)) (engagement_query db))"
    unfolding engagement_query_def take_map [symmetric]
    by (rule sorted_wrt_take) (rule sorted_order_by_desc)
  moreover have "r \<in> set db \<and> (\<exists>v. page_views_total r = Some v \<and> 0 < v)"
    if "r \<in> set (engagement_query db)" for r
  proof -
    from that have "r \<in> set (order_by_desc page_views_total
        (filter (\<lambda>d. case page_views_total d of None \<Rightarrow> False | Some v \<Rightarrow> v > 0) db))"
      unfolding engagement_query_def by (rule in_set_takeD)
    then have "r \<in> set db"
      and "case page_views_total r of None \<Rightarrow> False | Some v \<Rightarrow> v > 0"
      by (simp_all add: set_order_by_desc)
    then show ?thesis
      by (cases "page_views_total r") simp_all
  qed
  moreover have "length (engagement_query db) \<le> 20"
    by (simp add: engagement_query_def)
  ultimately show ?thesis
    by blast
qed

subsection \<open>publication-timeline: the rows of the query\<close>

lemma map_insort_key: "map f (insort_key f x xs) = insort (f x) (map f xs)"
  by (induction xs) simp_all

lemma map_sort_key: "map f (sort_key f xs) = sort (map f xs)"
  by (induction xs) (simp_all add: map_insort_key)

lemma timeline_query_years:
  "map fst (timeline_query t) = sort (remdups (map ts_year (non_null (map publication_date t))))"
  by (simp add: timeline_query_def map_sort_key group_by_def comp_def)

lemma timeline_query_counts:
  "sum_list (map snd (timeline_query t)) = int (length (non_null (map publication_date t)))"
proof -
  let ?ds = "non_null (map publication_date t)"
  have "sum_list (map snd (timeline_query t))
          = (\<Sum>k\<leftarrow>remdups (map ts_year ?ds). int (length (filter (\<lambda>r. ts_year r = k) ?ds)))"
    by (simp add: timeline_query_def sum_list_sort_key group_by_def comp_def)
  then show ?thesis
    by (simp only: group_sizes_total)
qed

lemma year_group_size:
  "length (filter (\<lambda>ts. ts_year ts = y) (non_null (map publication_date t)))
     = length (filter (\<lambda>d. map_option ts_year (publication_date d) = Some y) t)"
  by (induction t) (auto simp: non_null_Nil non_null_Cons split: option.splits)

lemma timeline_query_row:
  assumes "(y, c) \<in> set (timeline_query t)"
  shows "c = int (length (filter (\<lambda>d. map_option ts_year (publication_date d) = Some y) t))"
    and "0 \<le> c"
proof -
  from assms have "c = int (length (filter (\<lambda>ts. ts_year ts = y)
                                     (non_null (map publication_date t))))"
    by (auto simp: timeline_query_def group_by_def)
  then show "c = int (length (filter (\<lambda>d. map_option ts_year (publication_date d) = Some y) t))"
    by (simp only: year_group_size)
  then show "0 \<le> c" by simp
qed

lemma timeline_years:
  "map year (fst (get_publication_timeline db))
     = filter (\<lambda>y. y \<noteq> 0 \<and> 2000 \<le> y) (map fst (timeline_query db))"
  by (simp add: timeline_result filter_map comp_def case_prod_unfold)

lemma timeline_counts:
  "map count (fst (get_publication_timeline db))
     = map snd (filter (\<lambda>(y, c). y \<noteq> 0 \<and> 2000 \<le> y) (timeline_query db))"
  by (simp add: timeline_result comp_def case_prod_unfold)

section \<open>The claims\<close>

text \<open>
  C1. The claim asks for a list that is non-increasing in total views, rows without a view
  count included. On \<open>unviewed_table\<close> top-viewed with \<open>limit = 10\<close> returns row \<open>b\<close>, which
  has no view count, ahead of row \<open>a\<close> with 5 views: \<open>ORDER BY page_views_total DESC\<close> puts
  nulls first. (The list never has more than \<open>limit\<close> entries, and it is sorted once nulls
  are ranked above every number, so its rows with a view count are in descending order:
  \<open>top_viewed_at_most_limit\<close>, \<open>top_viewed_nulls_first_then_descending\<close>,
  \<open>top_viewed_viewed_rows_descending\<close>.)
\<close>

theorem top_viewed_puts_unviewed_first:
  "map_sum id (map (\<lambda>s. (s_id s, s_page_views_total s)))
     (fst (get_top_viewed_datasets 10 unviewed_table))
   = Inr [(''b'', None), (''a'', Some 5)]"
  by (simp add: top_viewed_result sql_limit_def order_by_desc_def desc_rank_def
      unviewed_table_def blank_def summary_of_def)

text \<open>
  C2. Search with \<open>q\<close>, \<open>category\<close> and \<open>agency\<close> empty and \<open>limit = 50\<close> succeeds
  and returns the records of top-viewed with \<open>limit = 50\<close>, in the same order, once
  each search result is cut down to the six fields of a top-viewed entry. This holds for
  every table and every pattern-match operator.
\<close>

theorem search_defaults_match_top_viewed:
  "map_sum id (map common_fields) (fst (search_datasets ilike [] [] [] 50 db))
     = fst (get_top_viewed_datasets 50 db)
   \<and> (\<exists>rs. fst (search_datasets ilike [] [] [] 50 db) = Inr rs)"
  by (simp add: search_result top_viewed_result search_query_no_filter sql_limit_def
      comp_def common_fields_search_result_of)

text \<open>
  C3. On the empty table overview-stats returns the record of four zeros. The handler has
  no failing branch: its result is the record itself, not an \<open>error + _\<close>.
\<close>

theorem overview_stats_empty_store:
  "fst (get_overview_stats []) =
     \<lparr>total_datasets = 0, total_page_views = 0, total_downloads = 0, avg_weekly_views = 0\<rparr>"
  by (simp add: get_overview_stats_def run_query_def sql_sum_def sql_avg_def non_null_Nil
      or_0_def round2_def round_half_even_def)

text \<open>
  C4. publication-timeline returns its entries in ascending order of year with no year
  twice; the years returned are exactly the years from 2000 on that occur among the
  publication dates present, so no returned year is below 2000; the count of an entry is
  the number of records published in its year; and the counts add up to at most the number
  of records that have a publication date.
\<close>

theorem timeline_years_sorted_from_2000:
  "sorted (map year (fst (get_publication_timeline db)))
   \<and> distinct (map year (fst (get_publication_timeline db)))
   \<and> set (map year (fst (get_publication_timeline db)))
       = {y. 2000 \<le> y \<and> (\<exists>d\<in>set db. \<exists>ts. publication_date d = Some ts \<and> ts_year ts = y)}
   \<and> (\<forall>e\<in>set (fst (get_publication_timeline db)).
         2000 \<le> year e
         \<and> count e = int (length (filter
               (\<lambda>d. map_option ts_year (publication_date d) = Some (year e)) db)))
   \<and> sum_list (map count (fst (get_publication_timeline db)))
       \<le> int (length (filter (\<lambda>d. publication_date d \<noteq> None) db))"
proof (intro conjI)
  show "sorted (map year (fst (get_publication_timeline db)))"
    by (simp only: timeline_years timeline_query_years) (rule sorted_wrt_filter, rule sorted_sort)
  show "distinct (map year (fst (get_publication_timeline db)))"
    by (simp only: timeline_years timeline_query_years distinct_filter distinct_sort
        distinct_remdups)
  show "set (map year (fst (get_publication_timeline db)))
       = {y. 2000 \<le> y \<and> (\<exists>d\<in>set db. \<exists>ts. publication_date d = Some ts \<and> ts_year ts = y)}"
  proof -
    have dated: "set (non_null (map publication_date db))
                   = {ts. \<exists>d\<in>set db. publication_date d = Some ts}"
      by (induction db) (auto simp: non_null_Nil non_null_Cons split: option.splits)
    have "set (map year (fst (get_publication_timeline db)))
            = {y \<in> ts_year ` set (non_null (map publication_date db)). y \<noteq> 0 \<and> 2000 \<le> y}"
      by (simp only: timeline_years timeline_query_years set_filter set_sort set_remdups
          set_map)
    also have "\<dots> = {y. 2000 \<le> y
                \<and> (\<exists>d\<in>set db. \<exists>ts. publication_date d = Some ts \<and> ts_year ts = y)}"
      unfolding dated by auto
    finally show ?thesis .
  qed
  show "\<forall>e\<in>set (fst (get_publication_timeline db)).
         2000 \<le> year e
         \<and> count e = int (length (filter
               (\<lambda>d. map_option ts_year (publication_date d) = Some (year e)) db))"
  proof
    fix e assume "e \<in> set (fst (get_publication_timeline db))"
    then obtain y c where e: "e = \<lparr>year = y, count = c\<rparr>" and ok: "2000 \<le> y"
      and row: "(y, c) \<in> set (timeline_query db)"
      by (auto simp: timeline_result)
    from timeline_query_row(1)[OF row] e ok
    show "2000 \<le> year e
         \<and> count e = int (length (filter
               (\<lambda>d. map_option ts_year (publication_date d) = Some (year e)) db))"
      by simp
  qed
  show "sum_list (map count (fst (get_publication_timeline db)))
       \<le> int (length (filter (\<lambda>d. publication_date d \<noteq> None) db))"
  proof -
    have "sum_list (map snd (filter (\<lambda>(y, c). y \<noteq> 0 \<and> 2000 \<le> y) (timeline_query db)))
            \<le> sum_list (map snd (timeline_query db))"
      by (rule sum_list_filter_le) (auto dest: timeline_query_row(2))
    then show ?thesis
      by (simp only: timeline_counts timeline_query_counts length_non_null_map)
  qed
qed

theorem timeline_years_sorted_from_2000_witness:
  "fst (get_publication_timeline dated_table)
     = [\<lparr>year = 2001, count = 1\<rparr>, \<lparr>year = 2005, count = 2\<rparr>]
   \<and> 2000 \<le> year \<lparr>year = 2005, count = 2\<rparr>
   \<and> count \<lparr>year = 2005, count = 2\<rparr>
       = int (length (filter (\<lambda>d. map_option ts_year (publication_date d)
                                    = Some (year \<lparr>year = 2005, count = 2\<rparr>)) dated_table))
   \<and> sum_list (map count (fst (get_publication_timeline dated_table)))
       \<le> int (length (filter (\<lambda>d. publication_date d \<noteq> None) dated_table))"
proof -
  have out: "fst (get_publication_timeline dated_table)
     = [\<lparr>year = 2001, count = 1\<rparr>, \<lparr>year = 2005, count = 2\<rparr>]"
    by (simp add: timeline_result timeline_query_def group_by_def non_null_Nil non_null_Cons
        dated_table_def blank_def new_year_def)
  then have mem: "\<lparr>year = 2005, count = 2\<rparr> \<in> set (fst (get_publication_timeline dated_table))"
    by simp
  note all = timeline_years_sorted_from_2000 [of dated_table]
  from all mem have "2000 \<le> year \<lparr>year = 2005, count = 2\<rparr>
   \<and> count \<lparr>year = 2005, count = 2\<rparr>
       = int (length (filter (\<lambda>d. map_option ts_year (publication_date d)
                                    = Some (year \<lparr>year = 2005, count = 2\<rparr>)) dated_table))"
    by blast
  moreover from all
  have "sum_list (map count (fst (get_publication_timeline dated_table)))
       \<le> int (length (filter (\<lambda>d. publication_date d \<noteq> None) dated_table))"
    by blast
  ultimately show ?thesis using out by blast
qed

text \<open>
  C5. When engagement-metrics succeeds it returns one dictionary per selected row, in
  order, and the \<open>name\<close> of each is the row's name cut to its first 50 characters and
  followed by three dots if the name is longer than 50 characters, the name itself
  otherwise. So a name of 51 characters is cut and a name of 50 characters is not.
\<close>

theorem engagement_name_truncation:
  assumes "fst (get_engagement_metrics db) = Inr out"
  shows "length out = length (engagement_query db)
         \<and> (\<forall>i<length out. \<exists>n. name (engagement_query db ! i) = Some n
               \<and> e_name (out ! i) = (if 50 < length n then take 50 n @ ''...'' else n)
               \<and> (length n = 51 \<longrightarrow> e_name (out ! i) = take 50 n @ ''...'')
               \<and> (length n = 50 \<longrightarrow> e_name (out ! i) = n))"
proof -
  from assms have c: "comprehension engagement_of (engagement_query db) = Inr out"
    by (simp add: engagement_result)
  from comprehension_Inr[OF c] have len: "length out = length (engagement_query db)"
    and row: "\<And>i. i < length (engagement_query db)
                \<Longrightarrow> engagement_of (engagement_query db ! i) = Inr (out ! i)"
    by simp_all
  have "\<exists>n. name (engagement_query db ! i) = Some n
               \<and> e_name (out ! i) = (if 50 < length n then take 50 n @ ''...'' else n)
               \<and> (length n = 51 \<longrightarrow> e_name (out ! i) = take 50 n @ ''...'')
               \<and> (length n = 50 \<longrightarrow> e_name (out ! i) = n)"
    if "i < length out" for i
  proof -
    from that len have "engagement_of (engagement_query db ! i) = Inr (out ! i)"
      by (simp add: row)
    from engagement_of_name[OF this] show ?thesis
      by (auto simp: shorten_def)
  qed
  with len show ?thesis by blast
qed

theorem engagement_name_truncation_witness:
  "fst (get_engagement_metrics named_table) = Inr named_out
   \<and> length name51 = 51 \<and> e_name (named_out ! 0) = take 50 name51 @ ''...''
   \<and> length name50 = 50 \<and> e_name (named_out ! 1) = name50"
proof -
  have q: "engagement_query named_table =
             [(blank ''b'')\<lparr>name := Some name51, page_views_total := Some 3\<rparr>,
              (blank ''a'')\<lparr>name := Some name50, page_views_total := Some 2\<rparr>]"
    by (simp add: engagement_query_def order_by_desc_def desc_rank_def named_table_def
        blank_def)
  have l51: "length name51 = 51" and l50: "length name50 = 50"
    by (simp_all add: name51_def name50_def)
  have h: "fst (get_engagement_metrics named_table) = Inr named_out"
    by (simp add: engagement_result q engagement_of_def shorten_def l51 l50 or_0_def
        named_out_def blank_def)
  have len: "length named_out = 2"
    by (simp add: named_out_def)
  note rows = engagement_name_truncation [OF h, THEN conjunct2, rule_format]
  from len have "\<exists>n. name (engagement_query named_table ! 0) = Some n
               \<and> e_name (named_out ! 0) = (if 50 < length n then take 50 n @ ''...'' else n)
               \<and> (length n = 51 \<longrightarrow> e_name (named_out ! 0) = take 50 n @ ''...'')
               \<and> (length n = 50 \<longrightarrow> e_name (named_out ! 0) = n)"
    by (intro rows) simp
  then obtain n0 where "name (engagement_query named_table ! 0) = Some n0"
    and "length n0 = 51 \<longrightarrow> e_name (named_out ! 0) = take 50 n0 @ ''...''"
    by blast
  with l51 have r0: "e_name (named_out ! 0) = take 50 name51 @ ''...''"
    by (simp add: q)
  from len have "\<exists>n. name (engagement_query named_table ! 1) = Some n
               \<and> e_name (named_out ! 1) = (if 50 < length n then take 50 n @ ''...'' else n)
               \<and> (length n = 51 \<longrightarrow> e_name (named_out ! 1) = take 50 n @ ''...'')
               \<and> (length n = 50 \<longrightarrow> e_name (named_out ! 1) = n)"
    by (intro rows) simp
  then obtain n1 where "name (engagement_query named_table ! 1) = Some n1"
    and "length n1 = 50 \<longrightarrow> e_name (named_out ! 1) = n1"
    by blast
  with l50 have r1: "e_name (named_out ! 1) = name50"
    by (simp add: q)
  from h l51 l50 r0 r1 show ?thesis by blast
qed

text \<open>
  C6. The claim asks for groups sorted by total views descending. On
  \<open>unviewed_agency_table\<close> by-agency returns agency DOE with \<open>total_views = 0\<close> ahead of
  agency DOT with \<open>total_views = 100\<close>: the sum over DOE's rows is null, the query sorts a
  null first, and the dictionary then prints it as 0. (No group has a null key, there are
  at most 15 groups and their counts add up to at most the number of rows:
  \<open>by_agency_no_null_key\<close>, \<open>by_agency_at_most_15\<close>, \<open>by_agency_counts_le_total\<close>.)
\<close>

theorem by_agency_puts_unviewed_agency_first:
  "map (\<lambda>s. (group_key s, dataset_count s, total_views s))
     (fst (get_analytics_by_agency unviewed_agency_table))
   = [(Some ''DOE'', 1, 0), (Some ''DOT'', 1, 100)]"
  by (simp add: by_agency_result order_by_desc_def desc_rank_def grouped_def group_by_def
      sql_sum_def non_null_Nil non_null_Cons stats_of_def or_0_def
      unviewed_agency_table_def blank_def)

text \<open>
  C7, as the claim states it, fails: on \<open>empty_label_table\<close> a row has the empty string as
  its category and another as its agency, and neither list contains the empty string.
\<close>

theorem categories_drop_empty_string:
  "Some [] \<in> set (map domain_category empty_label_table)
   \<and> [] \<notin> set (fst (get_categories empty_label_table))
   \<and> Some [] \<in> set (map dataset_information_agency empty_label_table)
   \<and> [] \<notin> set (fst (get_agencies empty_label_table))"
  by (simp add: categories_result agencies_result empty_label_table_def blank_def)

text \<open>
  C7, amended. list-categories returns, without repetition, exactly the category values
  that are neither null nor the empty string; list-agencies does so for the agency values.
\<close>

theorem filter_lists_are_the_non_empty_values:
  "set (fst (get_categories db))
     = {c. c \<noteq> [] \<and> (\<exists>d\<in>set db. domain_category d = Some c)}
   \<and> distinct (fst (get_categories db))
   \<and> set (fst (get_agencies db))
     = {a. a \<noteq> [] \<and> (\<exists>d\<in>set db. dataset_information_agency d = Some a)}
   \<and> distinct (fst (get_agencies db))"
  by (auto simp: categories_result agencies_result set_non_null image_iff
      intro: rev_bexI)

theorem filter_lists_are_the_non_empty_values_witness:
  "set (fst (get_categories empty_label_table)) = {''Health''}
   \<and> set (fst (get_agencies empty_label_table)) = {''DOT''}"
  using filter_lists_are_the_non_empty_values [of empty_label_table]
  by (auto simp: empty_label_table_def blank_def)

text \<open>
  C8. Whatever the request and the table, the table after the request is the table before
  it. Requests that end in an error (a rejected \<open>LIMIT\<close>, a \<open>TypeError\<close>) are among
  them: the error is a value of the response.
\<close>

theorem serve_leaves_store_unchanged: "snd (serve ilike req db) = db"
proof (cases req)
  case OverviewStats
  then show ?thesis
    by (simp add: respond_def get_overview_stats_def run_query_def)
next
  case (TopViewed limit)
  then show ?thesis
    by (simp add: respond_def get_top_viewed_datasets_def run_query_def)
next
  case (TopDownloaded limit)
  then show ?thesis
    by (simp add: respond_def get_top_downloaded_datasets_def run_query_def)
next
  case (Search q category agency limit)
  then show ?thesis
    by (simp add: respond_def search_datasets_def run_query_def)
qed (simp_all add: respond_def get_analytics_by_agency_def get_analytics_by_category_def
      get_publication_timeline_def get_engagement_metrics_def get_categories_def
      get_agencies_def run_query_def)

text \<open>
  C9. engagement-metrics returns a list exactly when every row that its query selects
  (\<open>engagement_query\<close>: total views above 0, the first 20 by total views descending, see
  \<open>engagement_query_selects\<close>) has a name; when a selected row has none, the request ends
  in \<open>TypeError\<close>.
\<close>

theorem engagement_succeeds_iff_names_present:
  "((\<exists>out. fst (get_engagement_metrics db) = Inr out)
      \<longleftrightarrow> (\<forall>r\<in>set (engagement_query db). name r \<noteq> None))
   \<and> ((\<exists>r\<in>set (engagement_query db). name r = None)
      \<longrightarrow> fst (get_engagement_metrics db) = Inl TypeError)"
proof -
  have iff: "(\<exists>out. fst (get_engagement_metrics db) = Inr out)
      \<longleftrightarrow> (\<forall>r\<in>set (engagement_query db). name r \<noteq> None)"
    by (simp only: engagement_result comprehension_succeeds_iff engagement_of_Inr_iff)
  have "fst (get_engagement_metrics db) = Inl TypeError"
    if "\<exists>r\<in>set (engagement_query db). name r = None"
  proof (cases "fst (get_engagement_metrics db)")
    case (Inl e)
    then have "\<exists>x\<in>set (engagement_query db). engagement_of x = Inl e"
      by (simp add: engagement_result comprehension_error)
    then have "e = TypeError"
      by (blast dest: engagement_of_Inl)
    with Inl show ?thesis by simp
  next
    case (Inr out)
    with iff that show ?thesis by blast
  qed
  with iff show ?thesis by blast
qed

theorem engagement_succeeds_iff_names_present_witness:
  "map name (engagement_query named_table) = [Some name51, Some name50]
   \<and> (\<exists>out. fst (get_engagement_metrics named_table) = Inr out)
   \<and> map name (engagement_query unnamed_table) = [None]
   \<and> fst (get_engagement_metrics unnamed_table) = Inl TypeError"
proof -
  have named: "map name (engagement_query named_table) = [Some name51, Some name50]"
    by (simp add: engagement_query_def order_by_desc_def desc_rank_def named_table_def
        blank_def)
  have unnamed: "map name (engagement_query unnamed_table) = [None]"
    by (simp add: engagement_query_def order_by_desc_def desc_rank_def unnamed_table_def
        blank_def)
  have ok: "\<forall>r\<in>set (engagement_query named_table). name r \<noteq> None"
  proof
    fix r assume "r \<in> set (engagement_query named_table)"
    then have "name r \<in> set (map name (engagement_query named_table))"
      by simp
    then show "name r \<noteq> None"
      unfolding named by auto
  qed
  have "None \<in> set (map name (engagement_query unnamed_table))"
    unfolding unnamed by simp
  then have bad: "\<exists>r\<in>set (engagement_query unnamed_table). name r = None"
    by (auto simp: image_iff intro: rev_bexI)
  from engagement_succeeds_iff_names_present [of named_table] ok
  have "\<exists>out. fst (get_engagement_metrics named_table) = Inr out"
    by blast
  moreover from engagement_succeeds_iff_names_present [of unnamed_table] bad
  have "fst (get_engagement_metrics unnamed_table) = Inl TypeError"
    by blast
  ultimately show ?thesis using named unnamed by blast
qed

text \<open>
  C10. Every dictionary of by-agency and of by-category has a non-null key and a
  \<open>dataset_count\<close> of at least 1; its \<open>total_views\<close> and \<open>total_downloads\<close> are integers,
  the sums of the view counts and download counts present in the group, which is 0 when
  none is present.
\<close>

theorem group_rows_well_formed:
  "(\<forall>s\<in>set (fst (get_analytics_by_agency db)).
      \<exists>k. group_key s = Some k \<and> 1 \<le> dataset_count s
        \<and> total_views s = sum_list (non_null (map page_views_total
              (filter (\<lambda>d. dataset_information_agency d = Some k) db)))
        \<and> total_downloads s = sum_list (non_null (map download_count
              (filter (\<lambda>d. dataset_information_agency d = Some k) db))))
   \<and> (\<forall>s\<in>set (fst (get_analytics_by_category db)).
      \<exists>k. group_key s = Some k \<and> 1 \<le> dataset_count s
        \<and> total_views s = sum_list (non_null (map page_views_total
              (filter (\<lambda>d. domain_category d = Some k) db)))
        \<and> total_downloads s = sum_list (non_null (map download_count
              (filter (\<lambda>d. domain_category d = Some k) db))))"
proof (intro conjI ballI)
  fix s assume "s \<in> set (fst (get_analytics_by_agency db))"
  then obtain r where "r \<in> set (grouped dataset_information_agency db)" and "s = stats_of r"
    by (auto simp: by_agency_result set_order_by_desc dest: in_set_takeD)
  with stats_row[of r dataset_information_agency db]
  show "\<exists>k. group_key s = Some k \<and> 1 \<le> dataset_count s
        \<and> total_views s = sum_list (non_null (map page_views_total
              (filter (\<lambda>d. dataset_information_agency d = Some k) db)))
        \<and> total_downloads s = sum_list (non_null (map download_count
              (filter (\<lambda>d. dataset_information_agency d = Some k) db)))"
    by blast
next
  fix s assume "s \<in> set (fst (get_analytics_by_category db))"
  then obtain r where "r \<in> set (grouped domain_category db)" and "s = stats_of r"
    by (auto simp: by_category_result set_order_by_desc)
  with stats_row[of r domain_category db]
  show "\<exists>k. group_key s = Some k \<and> 1 \<le> dataset_count s
        \<and> total_views s = sum_list (non_null (map page_views_total
              (filter (\<lambda>d. domain_category d = Some k) db)))
        \<and> total_downloads s = sum_list (non_null (map download_count
              (filter (\<lambda>d. domain_category d = Some k) db)))"
    by blast
qed

theorem group_rows_well_formed_witness:
  "doe_stats \<in> set (fst (get_analytics_by_agency unviewed_agency_table))
   \<and> (\<exists>k. group_key doe_stats = Some k \<and> 1 \<le> dataset_count doe_stats)
   \<and> health_stats \<in> set (fst (get_analytics_by_category empty_label_table))
   \<and> (\<exists>k. group_key health_stats = Some k \<and> 1 \<le> dataset_count health_stats)"
proof -
  have a: "doe_stats \<in> set (fst (get_analytics_by_agency unviewed_agency_table))"
    by (simp add: by_agency_result order_by_desc_def desc_rank_def grouped_def group_by_def
        sql_sum_def non_null_Nil non_null_Cons stats_of_def or_0_def
        unviewed_agency_table_def blank_def doe_stats_def)
  have c: "health_stats \<in> set (fst (get_analytics_by_category empty_label_table))"
    by (simp add: by_category_result order_by_desc_def desc_rank_def grouped_def group_by_def
        sql_sum_def non_null_Nil non_null_Cons stats_of_def or_0_def
        empty_label_table_def blank_def health_stats_def)
  from group_rows_well_formed [of unviewed_agency_table] a
  have "\<exists>k. group_key doe_stats = Some k \<and> 1 \<le> dataset_count doe_stats"
    by blast
  moreover from group_rows_well_formed [of empty_label_table] c
  have "\<exists>k. group_key health_stats = Some k \<and> 1 \<le> dataset_count health_stats"
    by blast
  ultimately show ?thesis using a c by blast
qed

end
